theory Spec2Isabelle
  imports Complex_Main "HOL-Library.AList"
begin

section \<open>Python values and exceptions\<close>

text \<open>
  The artifacts handled by \<^verbatim>\<open>logic/fuzzy_organizer.py\<close> are loosely typed objects whose
  attributes are read with \<^verbatim>\<open>getattr\<close>. Attribute values are modelled by the Python values
  the functions below can tell apart: \<^verbatim>\<open>None\<close>, integers, strings and lists. Python floats are
  modelled as exact reals; rounding is not modelled.
\<close>

datatype pyval = PyNone | PyInt int | PyStr string | PyList "pyval list"

datatype py_error = AttributeError | TypeError | KeyError | ComparatorError

text \<open>Truth value of a Python object, as tested by \<^verbatim>\<open>not x\<close>.\<close>

fun truthy :: "pyval \<Rightarrow> bool" where
  "truthy PyNone = False"
| "truthy (PyInt n) = (n \<noteq> 0)"
| "truthy (PyStr s) = (s \<noteq> [])"
| "truthy (PyList vs) = (vs \<noteq> [])"

text \<open>Iterating a value: a list yields its elements, a string its one-character strings.\<close>

fun py_iter :: "pyval \<Rightarrow> py_error + pyval list" where
  "py_iter (PyList vs) = Inr vs"
| "py_iter (PyStr s) = Inr (map (\<lambda>c. PyStr [c]) s)"
| "py_iter (PyInt n) = Inl TypeError"
| "py_iter PyNone = Inl TypeError"

text \<open>\<^verbatim>\<open>str.lower\<close> on the ASCII letters; characters of HOL strings are bytes.\<close>

definition lower_char :: "char \<Rightarrow> char" where
  "lower_char c =
     (case map_of (zip ''ABCDEFGHIJKLMNOPQRSTUVWXYZ'' ''abcdefghijklmnopqrstuvwxyz'') c of
        Some d \<Rightarrow> d
      | None \<Rightarrow> c)"

definition lower :: "string \<Rightarrow> string" where
  "lower s = map lower_char s"

text \<open>\<^verbatim>\<open>tag.lower()\<close>: only strings have the method.\<close>

fun py_lower :: "pyval \<Rightarrow> py_error + string" where
  "py_lower (PyStr s) = Inr (lower s)"
| "py_lower v = Inl AttributeError"

text \<open>The generator \<^verbatim>\<open>tag.lower() for tag in tags\<close>; the first failing tag raises.\<close>

fun lower_all :: "pyval list \<Rightarrow> py_error + string list" where
  "lower_all [] = Inr []"
| "lower_all (t # ts) =
     (case py_lower t of
        Inl e \<Rightarrow> Inl e
      | Inr s \<Rightarrow> (case lower_all ts of Inl e \<Rightarrow> Inl e | Inr ss \<Rightarrow> Inr (s # ss)))"

definition lowered_set :: "pyval \<Rightarrow> py_error + string set" where
  "lowered_set tags =
     (case py_iter tags of
        Inl e \<Rightarrow> Inl e
      | Inr ts \<Rightarrow> (case lower_all ts of Inl e \<Rightarrow> Inl e | Inr ss \<Rightarrow> Inr (set ss)))"

section \<open>Tag set comparator\<close>

definition calculate_tag_similarity :: "pyval \<Rightarrow> pyval \<Rightarrow> py_error + real" where
  "calculate_tag_similarity tags1 tags2 =
     (if \<not> truthy tags1 \<or> \<not> truthy tags2 then Inr 0
      else case lowered_set tags1 of
        Inl e \<Rightarrow> Inl e
      | Inr set1 \<Rightarrow>
         (case lowered_set tags2 of
            Inl e \<Rightarrow> Inl e
          | Inr set2 \<Rightarrow>
             (let common_tags = set1 \<inter> set2
              in if set1 = {} \<and> set2 = {} then Inr 0
                 else (let union_size = card (set1 \<union> set2)
                       in if union_size = 0 then Inr 0
                          else Inr (real (card common_tags) / real union_size * 100)))))"


text \<open>A well-typed tag list: a Python list of strings.\<close>

definition tag_list :: "string list \<Rightarrow> pyval" where
  "tag_list xs = PyList (map PyStr xs)"

section \<open>Weights of the similarity engine\<close>

text \<open>
  \<^verbatim>\<open>self.weights\<close> is a dictionary keyed by attribute name; an association list keeps its
  insertion order. \<^verbatim>\<open>_normalize_weights\<close> rewrites every value in place.
\<close>

type_synonym weights = "(string \<times> real) list"

definition normalize_weights :: "weights \<Rightarrow> weights" where
  "normalize_weights ws =
     (let total_weight = sum_list (map snd ws)
      in if total_weight = 0
         then (let num_weights = length ws
               in if num_weights > 0
                  then (let equal_weight = 1 / real num_weights
                        in map (\<lambda>(key, w). (key, equal_weight)) ws)
                  else ws)
         else map (\<lambda>(key, w). (key, w / total_weight)) ws)"

text \<open>\<^verbatim>\<open>FuzzyOrganizer.__init__\<close>: the organizer's only state is its weights.\<close>

definition FuzzyOrganizer :: "real \<Rightarrow> real \<Rightarrow> real \<Rightarrow> real \<Rightarrow> weights" where
  "FuzzyOrganizer title_weight description_weight content_weight tag_weight =
     normalize_weights
       [(''title'', title_weight), (''description'', description_weight),
        (''content'', content_weight), (''tags'', tag_weight)]"

text \<open>\<^verbatim>\<open>self.weights[key]\<close>: a missing key raises.\<close>

definition weight :: "weights \<Rightarrow> string \<Rightarrow> py_error + real" where
  "weight ws key = (case map_of ws key of None \<Rightarrow> Inl KeyError | Some w \<Rightarrow> Inr w)"

section \<open>Similarity engine\<close>

text \<open>
  An artifact is any object; each attribute the engine reads is either absent (\<open>None\<close>) or
  holds a Python value.
\<close>

record artifact =
  id_attr :: "pyval option"
  title :: "pyval option"
  description :: "pyval option"
  content :: "pyval option"
  tags :: "pyval option"

text \<open>\<^verbatim>\<open>getattr(obj, name, default)\<close> and plain attribute access \<^verbatim>\<open>obj.name\<close>.\<close>

definition getattr :: "pyval option \<Rightarrow> pyval \<Rightarrow> pyval" where
  "getattr a d = (case a of None \<Rightarrow> d | Some v \<Rightarrow> v)"

definition attr :: "pyval option \<Rightarrow> py_error + pyval" where
  "attr a = (case a of None \<Rightarrow> Inl AttributeError | Some v \<Rightarrow> Inr v)"

text \<open>Sequencing of computations that may raise.\<close>

definition bind :: "py_error + 'a \<Rightarrow> ('a \<Rightarrow> py_error + 'b) \<Rightarrow> py_error + 'b" where
  "bind m f = (case m of Inl e \<Rightarrow> Inl e | Inr x \<Rightarrow> f x)"

text \<open>
  \<^verbatim>\<open>fuzz.partial_ratio\<close> belongs to the external fuzzywuzzy library; it is a parameter
  \<open>partial_ratio\<close> of the engine, which may raise on values it cannot compare.
\<close>

type_synonym comparator = "pyval \<Rightarrow> pyval \<Rightarrow> py_error + real"

definition calculate_text_similarity :: "comparator \<Rightarrow> pyval \<Rightarrow> pyval \<Rightarrow> py_error + real" where
  "calculate_text_similarity partial_ratio text1 text2 =
     (if \<not> truthy text1 \<or> \<not> truthy text2 then Inr 0 else partial_ratio text1 text2)"

definition calculate_artifact_similarity ::
  "comparator \<Rightarrow> weights \<Rightarrow> artifact \<Rightarrow> artifact \<Rightarrow> py_error + real" where
  "calculate_artifact_similarity partial_ratio ws artifact1 artifact2 =
     bind (attr (id_attr artifact1)) (\<lambda>id1.
     bind (attr (id_attr artifact2)) (\<lambda>id2.
     if id1 = id2 then Inr 0
     else
       bind (calculate_text_similarity partial_ratio
               (getattr (title artifact1) (PyStr [])) (getattr (title artifact2) (PyStr [])))
         (\<lambda>title_sim.
       bind (calculate_text_similarity partial_ratio
               (getattr (description artifact1) (PyStr []))
               (getattr (description artifact2) (PyStr [])))
         (\<lambda>desc_sim.
       bind (calculate_text_similarity partial_ratio
               (getattr (content artifact1) (PyStr [])) (getattr (content artifact2) (PyStr [])))
         (\<lambda>content_sim.
       bind (calculate_tag_similarity
               (getattr (tags artifact1) (PyList [])) (getattr (tags artifact2) (PyList [])))
         (\<lambda>tag_sim.
       bind (weight ws ''title'') (\<lambda>w_title.
       bind (weight ws ''description'') (\<lambda>w_desc.
       bind (weight ws ''content'') (\<lambda>w_content.
       bind (weight ws ''tags'') (\<lambda>w_tags.
       Inr (w_title * title_sim + w_desc * desc_sim + w_content * content_sim
            + w_tags * tag_sim)))))))))))"

section \<open>Connection discovery\<close>

text \<open>
  \<^verbatim>\<open>list.sort(key=..., reverse=True)\<close>: CPython reverses the list, sorts it stably in
  ascending key order and reverses it again.
\<close>

definition sort_reverse :: "('a \<Rightarrow> real) \<Rightarrow> 'a list \<Rightarrow> 'a list" where
  "sort_reverse key xs = rev (sort_key key (rev xs))"

text \<open>A record written by \<^verbatim>\<open>logging.error\<close>: target id, candidate id and the exception.\<close>

datatype log_record = Error_calculating pyval pyval py_error

text \<open>
  One iteration of the loop over \<^verbatim>\<open>all_artifacts\<close>, on the pair of the connections appended
  so far and the error records logged so far. A candidate \<open>None\<close> is a falsy list entry.
\<close>

definition scan_candidate ::
  "comparator \<Rightarrow> weights \<Rightarrow> artifact \<Rightarrow> real \<Rightarrow> artifact option \<Rightarrow>
   (artifact \<times> real) list \<times> log_record list \<Rightarrow> (artifact \<times> real) list \<times> log_record list" where
  "scan_candidate partial_ratio ws target_artifact threshold candidate acc =
     (case candidate of
        None \<Rightarrow> acc
      | Some artifact \<Rightarrow>
          if getattr (id_attr artifact) PyNone \<noteq> PyNone
             \<and> getattr (id_attr artifact) PyNone \<noteq> getattr (id_attr target_artifact) PyNone
          then (case calculate_artifact_similarity partial_ratio ws target_artifact artifact of
                  Inr score \<Rightarrow>
                    if score \<ge> threshold then (fst acc @ [(artifact, score)], snd acc) else acc
                | Inl e \<Rightarrow>
                    (fst acc,
                     snd acc @ [Error_calculating
                                  (getattr (id_attr target_artifact) (PyStr ''N/A''))
                                  (getattr (id_attr artifact) (PyStr ''N/A'')) e]))
          else acc)"

definition find_potential_connections ::
  "comparator \<Rightarrow> weights \<Rightarrow> artifact \<Rightarrow> artifact option list \<Rightarrow> real \<Rightarrow>
   (artifact \<times> real) list \<times> log_record list" where
  "find_potential_connections partial_ratio ws target_artifact all_artifacts threshold =
     (if all_artifacts = [] then ([], [])
      else (let (potential_connections, errors) =
                  fold (scan_candidate partial_ratio ws target_artifact threshold)
                       all_artifacts ([], [])
            in (sort_reverse snd potential_connections, errors)))"

text \<open>
  A stand-in comparator for concrete evaluations: 100 on equal strings, 0 on different
  ones, \<^verbatim>\<open>TypeError\<close> on anything that is not a string.
\<close>

fun exact_ratio :: comparator where
  "exact_ratio (PyStr s) (PyStr t) = Inr (if s = t then 100 else 0)"
| "exact_ratio u v = Inl TypeError"

text \<open>
  What the scan decides for one candidate, read off \<^verbatim>\<open>find_potential_connections\<close>: the
  score computation it attempts (none for a skipped candidate), the connection it appends,
  whether the computation raises, and the record it logs.
\<close>

definition scored :: "comparator \<Rightarrow> weights \<Rightarrow> artifact \<Rightarrow> artifact option \<Rightarrow> (py_error + real) option" where
  "scored partial_ratio ws target_artifact candidate =
     (case candidate of
        None \<Rightarrow> None
      | Some artifact \<Rightarrow>
          if getattr (id_attr artifact) PyNone \<noteq> PyNone
             \<and> getattr (id_attr artifact) PyNone \<noteq> getattr (id_attr target_artifact) PyNone
          then Some (calculate_artifact_similarity partial_ratio ws target_artifact artifact)
          else None)"

definition accepted :: "comparator \<Rightarrow> weights \<Rightarrow> artifact \<Rightarrow> real \<Rightarrow> artifact option \<Rightarrow> (artifact \<times> real) option" where
  "accepted partial_ratio ws target_artifact threshold candidate =
     (case candidate of
        None \<Rightarrow> None
      | Some artifact \<Rightarrow>
          (case scored partial_ratio ws target_artifact candidate of
             Some (Inr score) \<Rightarrow> if score \<ge> threshold then Some (artifact, score) else None
           | _ \<Rightarrow> None))"

definition failing :: "comparator \<Rightarrow> weights \<Rightarrow> artifact \<Rightarrow> artifact option \<Rightarrow> bool" where
  "failing partial_ratio ws target_artifact candidate =
     (case scored partial_ratio ws target_artifact candidate of
        Some (Inl e) \<Rightarrow> True
      | _ \<Rightarrow> False)"

definition logged :: "comparator \<Rightarrow> weights \<Rightarrow> artifact \<Rightarrow> artifact option \<Rightarrow> log_record option" where
  "logged partial_ratio ws target_artifact candidate =
     (case candidate of
        None \<Rightarrow> None
      | Some artifact \<Rightarrow>
          (case scored partial_ratio ws target_artifact candidate of
             Some (Inl e) \<Rightarrow> Some (Error_calculating
                                  (getattr (id_attr target_artifact) (PyStr ''N/A''))
                                  (getattr (id_attr artifact) (PyStr ''N/A'')) e)
           | _ \<Rightarrow> None))"

text \<open>
  Example artifacts: one whose only attributes are an id and the tag list \<^verbatim>\<open>["x"]\<close>, and a
  malformed one whose tag list holds an integer.
\<close>

definition tagged :: "int \<Rightarrow> artifact" where
  "tagged i = \<lparr>id_attr = Some (PyInt i), title = None, description = None, content = None,
               tags = Some (tag_list [''x''])\<rparr>"

definition broken :: "int \<Rightarrow> artifact" where
  "broken i = \<lparr>id_attr = Some (PyInt i), title = None, description = None, content = None,
               tags = Some (PyList [PyInt 5])\<rparr>"

section \<open>Relationship persistence\<close>

text \<open>
  The \<^verbatim>\<open>relationships\<close> table of \<^verbatim>\<open>initialize_database\<close>: rows in insertion order and the
  \<^verbatim>\<open>AUTOINCREMENT\<close> counter. Foreign keys are not enforced, since the connection never
  enables them.
\<close>

record relationship_row =
  rel_id :: int
  artifact_id_1 :: int
  artifact_id_2 :: int
  relationship_type :: string
  fuzzy_score :: real
  rel_description :: string
  created_at :: string

record database =
  relationships :: "relationship_row list"
  relationships_seq :: int

definition empty_database :: database where
  "empty_database = \<lparr>relationships = [], relationships_seq = 0\<rparr>"

text \<open>
  What the SQLite layer does during one call: \<^verbatim>\<open>create_connection\<close> returns \<^verbatim>\<open>None\<close>, a
  statement raises \<^verbatim>\<open>sqlite3.Error\<close>, or everything works.
\<close>

datatype sqlite_outcome = Connect_fails | Execute_fails | Works

text \<open>The \<^verbatim>\<open>UNIQUE (artifact_id_1, artifact_id_2)\<close> constraint would be violated.\<close>

definition unique_conflict :: "database \<Rightarrow> int \<Rightarrow> int \<Rightarrow> bool" where
  "unique_conflict db a1 a2 =
     (\<exists>r \<in> set (relationships db). artifact_id_1 r = a1 \<and> artifact_id_2 r = a2)"

definition create_relationship ::
  "sqlite_outcome \<Rightarrow> database \<Rightarrow> int \<Rightarrow> int \<Rightarrow> string \<Rightarrow> real \<Rightarrow> string \<Rightarrow> string \<Rightarrow>
   database \<times> int option" where
  "create_relationship env db artifact_id_1' artifact_id_2' rtype score descr now =
     (let (a1, a2) = (if artifact_id_1' > artifact_id_2'
                      then (artifact_id_2', artifact_id_1')
                      else (artifact_id_1', artifact_id_2'))
      in case env of
           Connect_fails \<Rightarrow> (db, None)
         | Execute_fails \<Rightarrow> (db, None)
         | Works \<Rightarrow>
             if unique_conflict db a1 a2 then (db, None)
             else (let lastrowid = relationships_seq db + 1
                   in (db\<lparr>relationships := relationships db @
                            [\<lparr>rel_id = lastrowid, artifact_id_1 = a1, artifact_id_2 = a2,
                              relationship_type = rtype, fuzzy_score = score,
                              rel_description = descr, created_at = now\<rparr>],
                          relationships_seq := lastrowid\<rparr>,
                       Some lastrowid)))"

definition delete_relationship :: "sqlite_outcome \<Rightarrow> database \<Rightarrow> int \<Rightarrow> database \<times> bool" where
  "delete_relationship env db relationship_id =
     (case env of
        Connect_fails \<Rightarrow> (db, False)
      | Execute_fails \<Rightarrow> (db, False)
      | Works \<Rightarrow>
          (db\<lparr>relationships := filter (\<lambda>r. rel_id r \<noteq> relationship_id) (relationships db)\<rparr>,
           \<exists>r \<in> set (relationships db). rel_id r = relationship_id))"

text \<open>A history of calls on the table, each with the outcome of the SQLite layer.\<close>

datatype db_call =
  Create sqlite_outcome int int string real string string
| Delete sqlite_outcome int

fun run_call :: "db_call \<Rightarrow> database \<Rightarrow> database" where
  "run_call (Create env a b rtype score descr now) db =
     fst (create_relationship env db a b rtype score descr now)"
| "run_call (Delete env rid) db = fst (delete_relationship env db rid)"

definition run_calls :: "db_call list \<Rightarrow> database" where
  "run_calls calls = fold run_call calls empty_database"

text \<open>
  A relationship over the unordered pair of \<open>a\<close> and \<open>b\<close> is stored; and the invariant
  that every stored row has its smaller id first.
\<close>

definition pair_exists :: "database \<Rightarrow> int \<Rightarrow> int \<Rightarrow> bool" where
  "pair_exists db a b =
     (\<exists>r \<in> set (relationships db). {artifact_id_1 r, artifact_id_2 r} = {a, b})"

definition canonical :: "database \<Rightarrow> bool" where
  "canonical db = (\<forall>r \<in> set (relationships db). artifact_id_1 r \<le> artifact_id_2 r)"

text \<open>The relationship created by the module's own example.\<close>

definition first_call :: db_call where
  "first_call = Create Works 7 3 ''synapse'' 0.75 ''Ideas are related'' ''2024-01-01T00:00:00''"

section \<open>Relationship graph assembler\<close>

text \<open>
  \<^verbatim>\<open>fetch_graph_data\<close> hands \<^verbatim>\<open>build_artifact_graph\<close> dictionaries with a fixed set of keys.
\<close>

record artifact_dict =
  art_id :: int
  art_title :: string
  art_type :: string
  art_description :: string

record relationship_dict =
  source :: int
  target :: int
  rel_type :: string
  score :: real

record node_data =
  node_title :: string
  node_type :: string
  node_description :: string
  node_color :: string

record edge_data =
  edge_type :: string
  edge_score :: real
  edge_color :: string

definition NODE_COLORS :: "(string \<times> string) list" where
  "NODE_COLORS = [(''Project'', ''skyblue''), (''Artifact'', ''lightgreen''),
                  (''Tag'', ''orange''), (''Relationship'', ''red'')]"

definition EDGE_COLORS :: "(string \<times> string) list" where
  "EDGE_COLORS = [(''Parent-Child'', ''gray''), (''Related'', ''purple''),
                  (''FuzzyLink'', ''blue'')]"

text \<open>\<^verbatim>\<open>dict.get(key, default)\<close>.\<close>

definition dict_get :: "('k \<times> 'v) list \<Rightarrow> 'k \<Rightarrow> 'v \<Rightarrow> 'v" where
  "dict_get d k dflt = (case map_of d k of None \<Rightarrow> dflt | Some v \<Rightarrow> v)"

text \<open>
  The undirected \<^verbatim>\<open>networkx.Graph\<close>: the node dictionary and the adjacency dictionary of
  dictionaries, both in insertion order. An edge between \<open>u\<close> and \<open>v\<close> is the entry \<open>v\<close>
  of \<open>u\<close>'s adjacency and the entry \<open>u\<close> of \<open>v\<close>'s, holding the same data.
\<close>

record graph =
  nodes :: "(int \<times> node_data) list"
  adj :: "(int \<times> (int \<times> edge_data) list) list"

definition empty_graph :: graph where
  "empty_graph = \<lparr>nodes = [], adj = []\<rparr>"

text \<open>\<^verbatim>\<open>n in G\<close>.\<close>

definition has_node :: "graph \<Rightarrow> int \<Rightarrow> bool" where
  "has_node G n = (n \<in> fst ` set (nodes G))"

text \<open>
  \<^verbatim>\<open>G.add_node(n, **attr)\<close>: a new node gets an empty adjacency; an existing node has its
  attributes updated, here all of them since every call passes the same four keys.
\<close>

definition add_node :: "int \<Rightarrow> node_data \<Rightarrow> graph \<Rightarrow> graph" where
  "add_node n d G =
     (if \<not> has_node G n
      then G\<lparr>nodes := nodes G @ [(n, d)], adj := AList.update n [] (adj G)\<rparr>
      else G\<lparr>nodes := AList.update n d (nodes G)\<rparr>)"

definition neighbours :: "graph \<Rightarrow> int \<Rightarrow> (int \<times> edge_data) list" where
  "neighbours G n = dict_get (adj G) n []"

text \<open>
  \<^verbatim>\<open>G.add_edge(u, v, **attr)\<close>: missing endpoints are added as nodes without attributes
  (which the assembler's guard rules out), then the edge data is stored for both directions,
  replacing the three attributes of an edge already present.
\<close>

definition add_bare_node :: "int \<Rightarrow> graph \<Rightarrow> graph" where
  "add_bare_node n G =
     (if \<not> has_node G n
      then G\<lparr>nodes := nodes G @ [(n, \<lparr>node_title = [], node_type = [],
                                          node_description = [], node_color = []\<rparr>)],
             adj := AList.update n [] (adj G)\<rparr>
      else G)"

definition set_adj :: "int \<Rightarrow> int \<Rightarrow> edge_data \<Rightarrow> graph \<Rightarrow> graph" where
  "set_adj u v d G = G\<lparr>adj := AList.update u (AList.update v d (neighbours G u)) (adj G)\<rparr>"

definition add_edge :: "int \<Rightarrow> int \<Rightarrow> edge_data \<Rightarrow> graph \<Rightarrow> graph" where
  "add_edge u v d G = set_adj v u d (set_adj u v d (add_bare_node v (add_bare_node u G)))"

text \<open>
  \<^verbatim>\<open>G.edges\<close>: every node in turn reports the neighbours that have not reported yet, so each
  undirected edge is listed once. \<^verbatim>\<open>number_of_edges\<close> is the length of that view.
\<close>

fun edges_from :: "(int \<times> (int \<times> edge_data) list) list \<Rightarrow> int list \<Rightarrow> (int \<times> int \<times> edge_data) list" where
  "edges_from [] seen = []"
| "edges_from ((n, nbrs) # rest) seen =
     map (\<lambda>(nbr, d). (n, nbr, d)) (filter (\<lambda>(nbr, d). nbr \<notin> set seen) nbrs)
     @ edges_from rest (n # seen)"

definition edges :: "graph \<Rightarrow> (int \<times> int \<times> edge_data) list" where
  "edges G = edges_from (adj G) []"

definition number_of_nodes :: "graph \<Rightarrow> nat" where
  "number_of_nodes G = length (nodes G)"

definition number_of_edges :: "graph \<Rightarrow> nat" where
  "number_of_edges G = length (edges G)"

text \<open>\<^verbatim>\<open>G.get_edge_data(u, v)\<close>.\<close>

definition get_edge_data :: "graph \<Rightarrow> int \<Rightarrow> int \<Rightarrow> edge_data option" where
  "get_edge_data G u v = map_of (neighbours G u) v"

text \<open>The two loops of \<^verbatim>\<open>build_artifact_graph\<close>; the second also collects the printed warnings.\<close>

definition add_artifact :: "artifact_dict \<Rightarrow> graph \<Rightarrow> graph" where
  "add_artifact artifact G =
     add_node (art_id artifact)
       \<lparr>node_title = art_title artifact, node_type = art_type artifact,
        node_description = art_description artifact,
        node_color = dict_get NODE_COLORS (art_type artifact) ''lightgray''\<rparr> G"

datatype warning = Skipping_edge int int

definition add_relationship :: "relationship_dict \<Rightarrow> graph \<times> warning list \<Rightarrow> graph \<times> warning list" where
  "add_relationship rel acc =
     (if has_node (fst acc) (source rel) \<and> has_node (fst acc) (target rel)
      then (add_edge (source rel) (target rel)
              \<lparr>edge_type = rel_type rel, edge_score = score rel,
               edge_color = dict_get EDGE_COLORS (rel_type rel) ''black''\<rparr> (fst acc),
            snd acc)
      else (fst acc, snd acc @ [Skipping_edge (source rel) (target rel)]))"

definition build_artifact_graph ::
  "artifact_dict list \<Rightarrow> relationship_dict list \<Rightarrow> graph \<times> warning list" where
  "build_artifact_graph artifacts relationships' =
     fold add_relationship relationships' (fold add_artifact artifacts empty_graph, [])"

text \<open>
  The edge data \<^verbatim>\<open>build_artifact_graph\<close> stores for a relationship record, the set of the
  two endpoints of a listed edge, whether both ends of a record are ids of the given
  artifacts, and the consistency of the adjacency structure: distinct keys at both levels,
  all of them nodes.
\<close>

definition edge_of :: "relationship_dict \<Rightarrow> edge_data" where
  "edge_of rel = \<lparr>edge_type = rel_type rel, edge_score = score rel,
                  edge_color = dict_get EDGE_COLORS (rel_type rel) ''black''\<rparr>"

definition endpoints :: "int \<times> int \<times> edge_data \<Rightarrow> int set" where
  "endpoints e = {fst e, fst (snd e)}"

definition adjacency_ok :: "int set \<Rightarrow> (int \<times> (int \<times> edge_data) list) list \<Rightarrow> bool" where
  "adjacency_ok N al =
     (distinct (map fst al)
      \<and> (\<forall>n nbrs. (n, nbrs) \<in> set al \<longrightarrow>
            n \<in> N \<and> distinct (map fst nbrs) \<and> fst ` set nbrs \<subseteq> N))"

definition well_formed :: "graph \<Rightarrow> bool" where
  "well_formed G = adjacency_ok (fst ` set (nodes G)) (adj G)"

definition known :: "artifact_dict list \<Rightarrow> relationship_dict \<Rightarrow> bool" where
  "known artifacts rel =
     (source rel \<in> art_id ` set artifacts \<and> target rel \<in> art_id ` set artifacts)"

text \<open>Example inputs: an artifact dictionary and a relationship record.\<close>

definition memo :: "int \<Rightarrow> artifact_dict" where
  "memo i = \<lparr>art_id = i, art_title = ''Note'', art_type = ''Artifact'', art_description = []\<rparr>"

definition link :: "int \<Rightarrow> int \<Rightarrow> string \<Rightarrow> real \<Rightarrow> relationship_dict" where
  "link u v t s = \<lparr>source = u, target = v, rel_type = t, score = s\<rparr>"

section \<open>Properties of the tag set comparator\<close>

lemma lower_all_strings: "lower_all (map PyStr xs) = Inr (map lower xs)"
  by (induction xs) simp_all

lemma lowered_set_tag_list: "lowered_set (tag_list xs) = Inr (set (map lower xs))"
  by (simp add: lowered_set_def tag_list_def lower_all_strings)

lemma truthy_tag_list: "truthy (tag_list xs) = (xs \<noteq> [])"
  by (simp add: tag_list_def)



section \<open>Properties of the weights\<close>






section \<open>Properties of the similarity engine\<close>

text \<open>
  Claim C6. When both artifacts carry the same id, \<^verbatim>\<open>calculate_artifact_similarity\<close> returns
  0, whatever the comparator, the weights and the other attributes are: no component
  similarity is computed, so neither a raising comparator nor malformed tags matter.
\<close>

theorem calculate_artifact_similarity_same_id:
  "id_attr artifact1 = Some i \<Longrightarrow> id_attr artifact2 = Some i \<Longrightarrow>
   calculate_artifact_similarity partial_ratio ws artifact1 artifact2 = Inr 0"
  by (simp add: calculate_artifact_similarity_def bind_def attr_def)

text \<open>
  The theorem at an artifact compared with itself, with a comparator that always raises,
  no weights and tags that are not iterable.
\<close>

theorem calculate_artifact_similarity_same_id_witness:
  "id_attr \<lparr>id_attr = Some (PyInt 7), title = Some (PyStr ''a''), description = None,
            content = None, tags = Some (PyInt 3)\<rparr> = Some (PyInt 7)
   \<and> calculate_artifact_similarity (\<lambda>u v. Inl ComparatorError) []
       \<lparr>id_attr = Some (PyInt 7), title = Some (PyStr ''a''), description = None,
         content = None, tags = Some (PyInt 3)\<rparr>
       \<lparr>id_attr = Some (PyInt 7), title = Some (PyStr ''a''), description = None,
         content = None, tags = Some (PyInt 3)\<rparr> = Inr 0"
  using calculate_artifact_similarity_same_id [of
      "\<lparr>id_attr = Some (PyInt 7), title = Some (PyStr ''a''), description = None,
         content = None, tags = Some (PyInt 3)\<rparr>" "PyInt 7"
      "\<lparr>id_attr = Some (PyInt 7), title = Some (PyStr ''a''), description = None,
         content = None, tags = Some (PyInt 3)\<rparr>" "\<lambda>u v. Inl ComparatorError" "[]"]
  by simp

section \<open>Properties of connection discovery\<close>

lemma scan_candidate_eq:
  "scan_candidate pr ws t thr c acc =
     (fst acc @ (case accepted pr ws t thr c of None \<Rightarrow> [] | Some x \<Rightarrow> [x]),
      snd acc @ (case logged pr ws t c of None \<Rightarrow> [] | Some l \<Rightarrow> [l]))"
  by (cases acc)
     (auto simp: scan_candidate_def accepted_def logged_def scored_def
           split: option.splits sum.splits)

lemma fold_scan_candidate:
  "fold (scan_candidate pr ws t thr) cs acc =
     (fst acc @ List.map_filter (accepted pr ws t thr) cs,
      snd acc @ List.map_filter (logged pr ws t) cs)"
proof (induction cs arbitrary: acc)
  case Nil
  show ?case by (simp add: List.map_filter_def)
next
  case (Cons c cs)
  let ?step = "scan_candidate pr ws t thr c acc"
  have "fold (scan_candidate pr ws t thr) (c # cs) acc
          = fold (scan_candidate pr ws t thr) cs ?step"
    by simp
  also have "\<dots> = (fst ?step @ List.map_filter (accepted pr ws t thr) cs,
                     snd ?step @ List.map_filter (logged pr ws t) cs)"
    by (rule Cons.IH)
  also have "\<dots> = (fst acc @ List.map_filter (accepted pr ws t thr) (c # cs),
                     snd acc @ List.map_filter (logged pr ws t) (c # cs))"
    by (simp add: scan_candidate_eq split: option.splits)
  finally show ?case .
qed

lemma find_potential_connections_eq:
  "find_potential_connections pr ws t cs thr =
     (sort_reverse snd (List.map_filter (accepted pr ws t thr) cs),
      List.map_filter (logged pr ws t) cs)"
  by (simp add: find_potential_connections_def fold_scan_candidate sort_reverse_def
      List.map_filter_def)

lemma sort_reverse_descending:
  "sorted_wrt (\<lambda>x y. key x \<ge> key y) (sort_reverse key xs)"
proof -
  have "sorted (map key (sort_key key (rev xs)))" by simp
  then have "sorted_wrt (\<lambda>x y. key x \<le> key y) (sort_key key (rev xs))"
    by (simp add: sorted_map)
  then show ?thesis
    by (simp add: sort_reverse_def sorted_wrt_rev)
qed

lemma sort_reverse_stable:
  "filter (\<lambda>x. key x = k) (sort_reverse key xs) = filter (\<lambda>x. key x = k) xs"
  by (simp add: sort_reverse_def rev_filter [symmetric] sort_key_stable)

lemma set_sort_reverse: "set (sort_reverse key xs) = set xs"
  by (simp add: sort_reverse_def)

lemma length_sort_reverse: "length (sort_reverse key xs) = length xs"
  by (simp add: sort_reverse_def)

lemma tagged_score: "i \<noteq> j \<Longrightarrow> calculate_artifact_similarity exact_ratio (FuzzyOrganizer 0 0 0 1) (tagged i) (tagged j) = Inr 100"
  by (simp add: calculate_artifact_similarity_def bind_def attr_def tagged_def getattr_def
     calculate_text_similarity_def calculate_tag_similarity_def truthy_tag_list lowered_set_tag_list
     weight_def FuzzyOrganizer_def normalize_weights_def)

lemma scan_two_tagged:
  "find_potential_connections exact_ratio (FuzzyOrganizer 0 0 0 1) (tagged 0)
     [Some (tagged 2), Some (tagged 1)] 70
   = ([(tagged 2, 100), (tagged 1, 100)], [])"
  by (simp add: find_potential_connections_def scan_candidate_def sort_reverse_def
     tagged_score) (simp add: tagged_def getattr_def)

lemma accepted_tagged:
  "i \<noteq> 0 \<Longrightarrow> accepted exact_ratio (FuzzyOrganizer 0 0 0 1) (tagged 0) 70 (Some (tagged i))
     = Some (tagged i, 100)"
  by (simp add: accepted_def scored_def tagged_score) (simp add: tagged_def getattr_def)

text \<open>
  Claim C1, as amended. The connections returned by \<^verbatim>\<open>find_potential_connections\<close> are
  ordered by descending score, and the connections of any one score keep the order their
  candidates have in the input sequence; the result holds exactly the accepted candidates.
  The order is a function of the inputs, hence the same on every run.
\<close>

theorem find_potential_connections_order:
  "sorted_wrt (\<lambda>x y. snd x \<ge> snd y) (fst (find_potential_connections pr ws t cs thr))
   \<and> (\<forall>s. filter (\<lambda>x. snd x = s) (fst (find_potential_connections pr ws t cs thr))
          = filter (\<lambda>x. snd x = s) (List.map_filter (accepted pr ws t thr) cs))
   \<and> set (fst (find_potential_connections pr ws t cs thr))
       = set (List.map_filter (accepted pr ws t thr) cs)
   \<and> length (fst (find_potential_connections pr ws t cs thr))
       = length (List.map_filter (accepted pr ws t thr) cs)"
  by (simp add: find_potential_connections_eq sort_reverse_descending sort_reverse_stable
      set_sort_reverse length_sort_reverse)

text \<open>
  The theorem at two candidates of score 100 given in the order id 2, id 1: the result is
  descending and lists the two in their input order.
\<close>

theorem find_potential_connections_order_witness:
  "sorted_wrt (\<lambda>x y. snd x \<ge> snd y)
     (fst (find_potential_connections exact_ratio (FuzzyOrganizer 0 0 0 1) (tagged 0)
        [Some (tagged 2), Some (tagged 1)] 70))
   \<and> filter (\<lambda>x. snd x = 100)
       (fst (find_potential_connections exact_ratio (FuzzyOrganizer 0 0 0 1) (tagged 0)
          [Some (tagged 2), Some (tagged 1)] 70))
     = [(tagged 2, 100), (tagged 1, 100)]"
  using find_potential_connections_order
    [of exact_ratio "FuzzyOrganizer 0 0 0 1" "tagged 0" "[Some (tagged 2), Some (tagged 1)]" 70]
  by (simp add: List.map_filter_def accepted_tagged)

text \<open>
  Claim C1 as stated fails: two candidates of equal score 100, given with id 2 before
  id 1, are returned with id 2 first, not in ascending order of id.
\<close>

theorem find_potential_connections_ties_counterexample:
  "find_potential_connections exact_ratio (FuzzyOrganizer 0 0 0 1) (tagged 0)
     [Some (tagged 2), Some (tagged 1)] 70
   = ([(tagged 2, 100), (tagged 1, 100)], [])
   \<and> id_attr (tagged 2) = Some (PyInt 2) \<and> id_attr (tagged 1) = Some (PyInt 1)"
  by (simp add: scan_two_tagged) (simp add: tagged_def)

lemma accepted_filter_failing:
  "List.map_filter (accepted pr ws t thr) (filter (\<lambda>c. \<not> failing pr ws t c) cs)
     = List.map_filter (accepted pr ws t thr) cs"
  by (induction cs)
     (auto simp: List.map_filter_def accepted_def failing_def split: option.splits sum.splits)

lemma accepted_not_failing:
  "accepted pr ws t thr c = Some (a, s) \<Longrightarrow> c = Some a \<and> \<not> failing pr ws t c"
  by (auto simp: accepted_def failing_def split: option.splits sum.splits if_splits)

lemma length_logged:
  "length (List.map_filter (logged pr ws t) cs) = length (filter (failing pr ws t) cs)"
  by (induction cs)
     (auto simp: List.map_filter_def logged_def failing_def scored_def split: option.splits sum.splits)

lemma lowered_set_broken: "lowered_set (PyList [PyInt 5]) = Inl AttributeError"
  by (simp add: lowered_set_def)

lemma broken_score: "i \<noteq> j \<Longrightarrow> calculate_artifact_similarity exact_ratio (FuzzyOrganizer 0 0 0 1) (tagged i) (broken j) = Inl AttributeError"
  by (simp add: calculate_artifact_similarity_def bind_def attr_def tagged_def broken_def getattr_def
     calculate_text_similarity_def calculate_tag_similarity_def truthy_tag_list lowered_set_tag_list
     lowered_set_broken)

lemma scan_broken_then_tagged: "find_potential_connections exact_ratio (FuzzyOrganizer 0 0 0 1) (tagged 0)
     [Some (broken 3), Some (tagged 1)] 70 
   = ([(tagged 1, 100)], [Error_calculating (PyInt 0) (PyInt 3) AttributeError])"
  by (simp add: find_potential_connections_def scan_candidate_def sort_reverse_def
     tagged_score broken_score) (simp add: tagged_def broken_def getattr_def)

text \<open>
  Claim C8. A candidate whose score computation raises is caught inside the loop: the
  connections returned are those of the scan without the failing candidates, one error
  record is logged per failing candidate, no failing candidate is among the connections,
  and \<^verbatim>\<open>find_potential_connections\<close> returns a result for every input.
\<close>

theorem find_potential_connections_isolates_failures:
  "fst (find_potential_connections pr ws t cs thr)
     = fst (find_potential_connections pr ws t (filter (\<lambda>c. \<not> failing pr ws t c) cs) thr)
   \<and> snd (find_potential_connections pr ws t cs thr) = List.map_filter (logged pr ws t) cs
   \<and> length (snd (find_potential_connections pr ws t cs thr))
       = length (filter (failing pr ws t) cs)
   \<and> (\<forall>a. failing pr ws t (Some a) \<longrightarrow>
          a \<notin> fst ` set (fst (find_potential_connections pr ws t cs thr)))"
proof (intro conjI allI impI)
  show "fst (find_potential_connections pr ws t cs thr)
     = fst (find_potential_connections pr ws t (filter (\<lambda>c. \<not> failing pr ws t c) cs) thr)"
    by (simp add: find_potential_connections_eq accepted_filter_failing)
  show "snd (find_potential_connections pr ws t cs thr) = List.map_filter (logged pr ws t) cs"
    by (simp add: find_potential_connections_eq)
  show "length (snd (find_potential_connections pr ws t cs thr))
       = length (filter (failing pr ws t) cs)"
    by (simp add: find_potential_connections_eq length_logged)
next
  fix a
  assume f: "failing pr ws t (Some a)"
  show "a \<notin> fst ` set (fst (find_potential_connections pr ws t cs thr))"
  proof
    assume "a \<in> fst ` set (fst (find_potential_connections pr ws t cs thr))"
    then obtain s where "(a, s) \<in> set (List.map_filter (accepted pr ws t thr) cs)"
      by (auto simp: find_potential_connections_eq set_sort_reverse)
    then obtain c where "accepted pr ws t thr c = Some (a, s)"
      by (auto simp: List.map_filter_def)
    with accepted_not_failing have "\<not> failing pr ws t (Some a)" by blast
    with f show False by simp
  qed
qed

text \<open>
  The theorem at a malformed first candidate followed by a sound one: the error is logged
  and the sound candidate is still returned.
\<close>

theorem find_potential_connections_isolates_failures_witness:
  "failing exact_ratio (FuzzyOrganizer 0 0 0 1) (tagged 0) (Some (broken 3))
   \<and> find_potential_connections exact_ratio (FuzzyOrganizer 0 0 0 1) (tagged 0)
       [Some (broken 3), Some (tagged 1)] 70
     = ([(tagged 1, 100)], [Error_calculating (PyInt 0) (PyInt 3) AttributeError])
   \<and> broken 3 \<notin> fst ` set (fst (find_potential_connections exact_ratio (FuzzyOrganizer 0 0 0 1)
        (tagged 0) [Some (broken 3), Some (tagged 1)] 70))"
proof -
  have f: "failing exact_ratio (FuzzyOrganizer 0 0 0 1) (tagged 0) (Some (broken 3))"
    by (simp add: failing_def scored_def broken_score) (simp add: broken_def tagged_def getattr_def)
  from find_potential_connections_isolates_failures
    [of exact_ratio "FuzzyOrganizer 0 0 0 1" "tagged 0" "[Some (broken 3), Some (tagged 1)]" 70]
  have "broken 3 \<notin> fst ` set (fst (find_potential_connections exact_ratio (FuzzyOrganizer 0 0 0 1)
        (tagged 0) [Some (broken 3), Some (tagged 1)] 70))"
    using f by blast
  with f scan_broken_then_tagged show ?thesis by simp
qed

section \<open>Bounds of the weighted score\<close>






section \<open>Properties of relationship persistence\<close>

lemma canonical_empty: "canonical empty_database"
  by (simp add: canonical_def empty_database_def)

lemma canonical_create:
  "canonical db \<Longrightarrow> canonical (fst (create_relationship env db a b ty sc de now))"
  by (cases env) (auto simp: canonical_def create_relationship_def Let_def)

lemma canonical_delete:
  "canonical db \<Longrightarrow> canonical (fst (delete_relationship env db rid))"
  by (cases env) (auto simp: canonical_def delete_relationship_def)

lemma canonical_run_call: "canonical db \<Longrightarrow> canonical (run_call c db)"
  by (cases c) (simp_all add: canonical_create canonical_delete)

lemma canonical_fold: "canonical db \<Longrightarrow> canonical (fold run_call calls db)"
  by (induction calls arbitrary: db) (simp_all add: canonical_run_call)

lemma canonical_run_calls: "canonical (run_calls calls)"
  by (simp add: run_calls_def canonical_fold canonical_empty)

lemma pair_exists_conflict:
  assumes "canonical db"
  shows "pair_exists db a b = unique_conflict db (min a b) (max a b)"
proof -
  have "({artifact_id_1 r, artifact_id_2 r} = {a, b})
          = (artifact_id_1 r = min a b \<and> artifact_id_2 r = max a b)"
    if "artifact_id_1 r \<le> artifact_id_2 r" for r
    using that by (auto simp: doubleton_eq_iff min_def max_def)
  with assms show ?thesis
    by (auto simp: pair_exists_def unique_conflict_def canonical_def)
qed

lemma create_relationship_min_max:
  "create_relationship env db a b ty sc de now =
     (case env of
        Works \<Rightarrow>
          if unique_conflict db (min a b) (max a b) then (db, None)
          else (db\<lparr>relationships := relationships db @
                     [\<lparr>rel_id = relationships_seq db + 1, artifact_id_1 = min a b,
                       artifact_id_2 = max a b, relationship_type = ty, fuzzy_score = sc,
                       rel_description = de, created_at = now\<rparr>],
                   relationships_seq := relationships_seq db + 1\<rparr>,
                Some (relationships_seq db + 1))
      | _ \<Rightarrow> (db, None))"
  by (cases env) (auto simp: create_relationship_def Let_def min_def max_def)

lemma run_first_call:
  "run_calls [first_call] =
     \<lparr>relationships = [\<lparr>rel_id = 1, artifact_id_1 = 3, artifact_id_2 = 7,
                         relationship_type = ''synapse'', fuzzy_score = 0.75,
                         rel_description = ''Ideas are related'',
                         created_at = ''2024-01-01T00:00:00''\<rparr>],
      relationships_seq = 1\<rparr>"
  by (simp add: run_calls_def first_call_def create_relationship_def empty_database_def
      unique_conflict_def)

lemma pair_exists_first_call:
  "pair_exists (run_calls [first_call]) 7 3" "\<not> pair_exists (run_calls [first_call]) 9 2"
  by (simp_all add: run_first_call pair_exists_def doubleton_eq_iff)

text \<open>
  Claim C3. On a table built by any history of \<^verbatim>\<open>create_relationship\<close> and
  \<^verbatim>\<open>delete_relationship\<close> calls: a call with two different ids whose pair is not yet stored
  appends one row with the smaller id as \<open>artifact_id_1\<close> and the larger as
  \<open>artifact_id_2\<close>; a call made while the SQLite layer fails stores nothing; and when a
  relationship over the same unordered pair is already stored, a call with the pair in
  either order returns \<^verbatim>\<open>None\<close> and leaves the table as it was.
\<close>

theorem create_relationship_canonical_or_rejected:
  assumes "db = run_calls calls"
  shows "(a \<noteq> b \<and> env = Works \<and> \<not> pair_exists db a b \<longrightarrow>
            (\<exists>db' rid. create_relationship env db a b ty sc de now = (db', Some rid)
               \<and> relationships db' = relationships db @
                    [\<lparr>rel_id = rid, artifact_id_1 = min a b, artifact_id_2 = max a b,
                      relationship_type = ty, fuzzy_score = sc, rel_description = de,
                      created_at = now\<rparr>]))
         \<and> (env \<noteq> Works \<longrightarrow> create_relationship env db a b ty sc de now = (db, None))
         \<and> (pair_exists db a b \<longrightarrow>
              create_relationship env db a b ty sc de now = (db, None)
              \<and> create_relationship env db b a ty sc de now = (db, None))"
proof -
  have c: "canonical db" using assms by (simp add: canonical_run_calls)
  have e: "pair_exists db a b = unique_conflict db (min a b) (max a b)"
    by (rule pair_exists_conflict [OF c])
  show ?thesis
    by (cases env) (auto simp: create_relationship_min_max e min.commute max.commute)
qed

text \<open>
  The theorem on the table holding the relationship of 7 and 3: a second call for 7 and 3
  and one for 3 and 7 are rejected, and a call for 9 and 2 stores the row of 2 and 9.
\<close>

theorem create_relationship_canonical_or_rejected_witness:
  "pair_exists (run_calls [first_call]) 7 3
   \<and> create_relationship Works (run_calls [first_call]) 7 3 ''synapse'' 0.9 [] ''2024-01-02''
       = (run_calls [first_call], None)
   \<and> create_relationship Works (run_calls [first_call]) 3 7 ''synapse'' 0.9 [] ''2024-01-02''
       = (run_calls [first_call], None)
   \<and> (9::int) \<noteq> 2 \<and> \<not> pair_exists (run_calls [first_call]) 9 2
   \<and> (\<exists>db' rid. create_relationship Works (run_calls [first_call]) 9 2 ''synapse'' 0.9 []
                     ''2024-01-02'' = (db', Some rid)
         \<and> relationships db' = relationships (run_calls [first_call]) @
              [\<lparr>rel_id = rid, artifact_id_1 = 2, artifact_id_2 = 9,
                relationship_type = ''synapse'', fuzzy_score = 0.9, rel_description = [],
                created_at = ''2024-01-02''\<rparr>])"
  using create_relationship_canonical_or_rejected
      [of "run_calls [first_call]" "[first_call]" 7 3 Works "''synapse''" "0.9" "[]" "''2024-01-02''"]
    create_relationship_canonical_or_rejected
      [of "run_calls [first_call]" "[first_call]" 9 2 Works "''synapse''" "0.9" "[]" "''2024-01-02''"]
    pair_exists_first_call
  by simp

text \<open>
  Claim C2 fails on the code. \<^verbatim>\<open>create_relationship\<close> called with twice the same id on an
  empty table stores a row whose two artifact ids are equal: the swap only orders the ids
  and nothing rejects the equal pair.
\<close>

theorem create_relationship_stores_self_pair:
  "create_relationship Works empty_database a a ty sc de now =
     (\<lparr>relationships = [\<lparr>rel_id = 1, artifact_id_1 = a, artifact_id_2 = a,
                          relationship_type = ty, fuzzy_score = sc, rel_description = de,
                          created_at = now\<rparr>],
       relationships_seq = 1\<rparr>,
      Some 1)"
  by (simp add: create_relationship_def empty_database_def unique_conflict_def)

text \<open>The theorem at the call \<^verbatim>\<open>create_relationship(5, 5)\<close>.\<close>

theorem create_relationship_stores_self_pair_witness:
  "\<exists>db' r. create_relationship Works empty_database 5 5 ''synapse'' 0 [] ''2024-01-01'' = (db', Some 1)
      \<and> relationships db' = [r] \<and> artifact_id_1 r = 5 \<and> artifact_id_2 r = 5"
  using create_relationship_stores_self_pair [of 5 "''synapse''" 0 "[]" "''2024-01-01''"]
  by simp

section \<open>Properties of the relationship graph assembler\<close>

lemma set_update_subset: "set (AList.update k v al) \<subseteq> insert (k, v) (set al)"
  by (induction al) auto

lemma adjacency_ok_mono: "adjacency_ok N al \<Longrightarrow> N \<subseteq> N' \<Longrightarrow> adjacency_ok N' al"
  unfolding adjacency_ok_def by blast

lemma adjacency_ok_update:
  assumes ok: "adjacency_ok N al" and k: "k \<in> N"
    and d: "distinct (map fst nb)" and s: "fst ` set nb \<subseteq> N"
  shows "adjacency_ok N (AList.update k nb al)"
proof -
  have keys: "distinct (map fst (AList.update k nb al))"
    using ok by (simp add: adjacency_ok_def AList.distinct_update)
  have entries: "n \<in> N \<and> distinct (map fst nbrs) \<and> fst ` set nbrs \<subseteq> N"
    if "(n, nbrs) \<in> set (AList.update k nb al)" for n nbrs
  proof -
    from that have "(n, nbrs) = (k, nb) \<or> (n, nbrs) \<in> set al"
      using set_update_subset [of k nb al] by blast
    then show ?thesis
    proof
      assume "(n, nbrs) = (k, nb)"
      with k d s show ?thesis by simp
    next
      assume "(n, nbrs) \<in> set al"
      with ok show ?thesis unfolding adjacency_ok_def by blast
    qed
  qed
  from keys entries show ?thesis unfolding adjacency_ok_def by blast
qed

lemma has_node_add_node: "has_node (add_node n d G) m = (m = n \<or> has_node G m)"
  by (auto simp: has_node_def add_node_def AList.dom_update)

lemma has_node_add_bare_node: "has_node (add_bare_node n G) m = (m = n \<or> has_node G m)"
  by (auto simp: has_node_def add_bare_node_def)

lemma has_node_set_adj: "has_node (set_adj u v d G) m = has_node G m"
  by (simp add: has_node_def set_adj_def)

lemma has_node_add_edge: "has_node (add_edge u v d G) m = (m = u \<or> m = v \<or> has_node G m)"
  by (auto simp: add_edge_def has_node_set_adj has_node_add_bare_node)

lemma well_formed_empty: "well_formed empty_graph"
  by (simp add: well_formed_def adjacency_ok_def empty_graph_def)

lemma well_formed_new_node:
  assumes "well_formed G"
  shows "well_formed (G\<lparr>nodes := nodes G @ [(n, d)], adj := AList.update n [] (adj G)\<rparr>)"
proof -
  have "adjacency_ok (insert n (fst ` set (nodes G))) (adj G)"
    using assms unfolding well_formed_def by (rule adjacency_ok_mono) blast
  then have "adjacency_ok (insert n (fst ` set (nodes G))) (AList.update n [] (adj G))"
    by (rule adjacency_ok_update) simp_all
  then show ?thesis by (simp add: well_formed_def)
qed

lemma well_formed_add_node: "well_formed G \<Longrightarrow> well_formed (add_node n d G)"
proof (cases "has_node G n")
  case False
  assume "well_formed G"
  then show ?thesis using False by (simp add: add_node_def well_formed_new_node)
next
  case True
  assume "well_formed G"
  then show ?thesis using True
    by (simp add: add_node_def well_formed_def AList.dom_update has_node_def insert_absorb)
qed

lemma well_formed_add_bare_node: "well_formed G \<Longrightarrow> well_formed (add_bare_node n G)"
  by (simp add: add_bare_node_def well_formed_new_node)

lemma neighbours_cases:
  "neighbours G u = [] \<or> (u, neighbours G u) \<in> set (adj G)"
  by (auto simp: neighbours_def dict_get_def split: option.splits dest: map_of_SomeD)

lemma well_formed_set_adj:
  assumes wf: "well_formed G" and u: "has_node G u" and v: "has_node G v"
  shows "well_formed (set_adj u v d G)"
proof -
  let ?N = "fst ` set (nodes G)"
  have ok: "adjacency_ok ?N (adj G)" using wf by (simp add: well_formed_def)
  have nb: "distinct (map fst (neighbours G u)) \<and> fst ` set (neighbours G u) \<subseteq> ?N"
    using neighbours_cases [of G u]
  proof
    assume "neighbours G u = []"
    then show ?thesis by simp
  next
    assume "(u, neighbours G u) \<in> set (adj G)"
    with ok show ?thesis unfolding adjacency_ok_def by blast
  qed
  have d: "distinct (map fst (AList.update v d (neighbours G u)))"
    using nb by (simp add: AList.distinct_update)
  have s: "fst ` set (AList.update v d (neighbours G u)) \<subseteq> ?N"
    using nb v by (simp add: AList.dom_update has_node_def)
  have ku: "u \<in> ?N" using u by (simp add: has_node_def)
  have "adjacency_ok ?N (AList.update u (AList.update v d (neighbours G u)) (adj G))"
    using ok ku d s by (rule adjacency_ok_update)
  then show ?thesis by (simp add: well_formed_def set_adj_def)
qed

lemma well_formed_add_edge: "well_formed G \<Longrightarrow> well_formed (add_edge u v d G)"
  unfolding add_edge_def
  by (intro well_formed_set_adj well_formed_add_bare_node)
     (simp_all add: has_node_set_adj has_node_add_bare_node)


lemma edges_from_member:
  "(n, m, d) \<in> set (edges_from al seen) \<Longrightarrow>
     (\<exists>nbrs. (n, nbrs) \<in> set al \<and> (m, d) \<in> set nbrs) \<and> m \<notin> set seen"
proof (induction al arbitrary: seen)
  case Nil
  then show ?case by simp
next
  case (Cons entry al)
  obtain k nbrs where entry: "entry = (k, nbrs)" by (cases entry)
  from Cons.prems have
    "(n = k \<and> (m, d) \<in> set nbrs \<and> m \<notin> set seen) \<or> (n, m, d) \<in> set (edges_from al (k # seen))"
    by (auto simp: entry)
  then show ?case
  proof
    assume "n = k \<and> (m, d) \<in> set nbrs \<and> m \<notin> set seen"
    then show ?thesis by (auto simp: entry)
  next
    assume "(n, m, d) \<in> set (edges_from al (k # seen))"
    from Cons.IH [OF this] show ?thesis by auto
  qed
qed

lemma endpoints_simp: "endpoints (n, m, d) = {n, m}"
  by (simp add: endpoints_def)

lemma distinct_head_edges:
  "distinct (map fst nbrs) \<Longrightarrow>
   distinct (map endpoints (map (\<lambda>(nbr, d). (n, nbr, d)) (filter (\<lambda>(nbr, d). nbr \<notin> set seen) nbrs)))"
proof (induction nbrs)
  case Nil
  then show ?case by simp
next
  case (Cons x nbrs)
  obtain m d where x: "x = (m, d)" by (cases x)
  from Cons.prems have m: "m \<notin> fst ` set nbrs" and dn: "distinct (map fst nbrs)"
    by (simp_all add: x)
  have ne: "{n, m} \<noteq> {n, m'}" if "(m', d') \<in> set nbrs" for m' d'
  proof -
    from that m have "m' \<noteq> m" by force
    then show ?thesis by (auto simp: doubleton_eq_iff)
  qed
  have "{n, m} \<notin> set (map endpoints (map (\<lambda>(nbr, d). (n, nbr, d)) (filter (\<lambda>(nbr, d). nbr \<notin> set seen) nbrs)))"
  proof
    assume "{n, m} \<in> set (map endpoints (map (\<lambda>(nbr, d). (n, nbr, d)) (filter (\<lambda>(nbr, d). nbr \<notin> set seen) nbrs)))"
    then obtain m' d' where "(m', d') \<in> set nbrs" "{n, m} = {n, m'}"
      by (auto simp: endpoints_simp)
    with ne show False by blast
  qed
  with Cons.IH [OF dn] show ?case by (simp add: x endpoints_simp)
qed

lemma distinct_edges_from:
  "adjacency_ok N al \<Longrightarrow> distinct (map endpoints (edges_from al seen))"
proof (induction al arbitrary: seen)
  case Nil
  then show ?case by simp
next
  case (Cons entry al)
  obtain k nbrs where entry: "entry = (k, nbrs)" by (cases entry)
  from Cons.prems have k: "k \<notin> fst ` set al" and dn: "distinct (map fst nbrs)"
    and ok: "adjacency_ok N al"
    by (auto simp: adjacency_ok_def entry)
  have rest: "k \<notin> endpoints e" if "e \<in> set (edges_from al (k # seen))" for e
  proof -
    obtain n m d where e: "e = (n, m, d)" by (cases e)
    from that edges_from_member [of n m d al "k # seen"]
    have "n \<in> fst ` set al" and "m \<noteq> k" by (force simp: e)+
    with k show ?thesis by (auto simp: e endpoints_simp)
  qed
  have head: "k \<in> endpoints e"
    if "e \<in> set (map (\<lambda>(nbr, d). (k, nbr, d)) (filter (\<lambda>(nbr, d). nbr \<notin> set seen) nbrs))" for e
    using that by (auto simp: endpoints_simp)
  have "set (map endpoints (map (\<lambda>(nbr, d). (k, nbr, d)) (filter (\<lambda>(nbr, d). nbr \<notin> set seen) nbrs)))
          \<inter> set (map endpoints (edges_from al (k # seen))) = {}"
    using rest head by fastforce
  with distinct_head_edges [OF dn, of k seen] Cons.IH [OF ok, of "k # seen"]
  show ?case by (simp add: entry)
qed

lemma edges_from_contains:
  assumes "map_of al u = Some nu" "map_of nu v = Some d"
    and "map_of al v = Some nv" "map_of nv u = Some d'"
    and "u \<notin> set seen" "v \<notin> set seen"
  shows "\<exists>e \<in> set (edges_from al seen). endpoints e = {u, v}"
  using assms
proof (induction al arbitrary: seen)
  case Nil
  then show ?case by simp
next
  case (Cons entry al)
  obtain k nbrs where entry: "entry = (k, nbrs)" by (cases entry)
  show ?case
  proof (cases "k = u")
    case True
    with Cons.prems have "(v, d) \<in> set nbrs" by (auto simp: entry dest: map_of_SomeD)
    with Cons.prems(6) have "(u, v, d) \<in> set (edges_from (entry # al) seen)"
      by (force simp: entry True)
    then show ?thesis by (metis endpoints_simp)
  next
    case ku: False
    show ?thesis
    proof (cases "k = v")
      case True
      with Cons.prems have "(u, d') \<in> set nbrs" by (auto simp: entry dest: map_of_SomeD)
      with Cons.prems(5) have "(v, u, d') \<in> set (edges_from (entry # al) seen)"
        by (force simp: entry True)
      moreover have "endpoints (v, u, d') = {u, v}" by (auto simp: endpoints_simp)
      ultimately show ?thesis by blast
    next
      case kv: False
      from Cons.prems ku kv have
        "map_of al u = Some nu" "map_of al v = Some nv" "u \<notin> set (k # seen)" "v \<notin> set (k # seen)"
        by (auto simp: entry)
      from Cons.IH [OF this(1) Cons.prems(2) this(2) Cons.prems(4) this(3,4)]
      show ?thesis by (auto simp: entry)
    qed
  qed
qed

lemma neighbours_set_adj:
  "neighbours (set_adj u v d G) x
     = (if x = u then AList.update v d (neighbours G u) else neighbours G x)"
  by (simp add: neighbours_def set_adj_def dict_get_def AList.update_conv')

lemma get_edge_data_set_adj:
  "get_edge_data (set_adj u v d G) x y
     = (if x = u \<and> y = v then Some d else get_edge_data G x y)"
  by (simp add: get_edge_data_def neighbours_set_adj AList.update_conv')

lemma add_bare_node_present: "has_node G n \<Longrightarrow> add_bare_node n G = G"
  by (simp add: add_bare_node_def)

lemma add_edge_present:
  "has_node G u \<Longrightarrow> has_node G v \<Longrightarrow> add_edge u v d G = set_adj v u d (set_adj u v d G)"
  by (simp add: add_edge_def add_bare_node_present)

lemma get_edge_data_both_directions:
  "get_edge_data (set_adj v u d (set_adj u v d G)) x y
     = (if (x = u \<and> y = v) \<or> (x = v \<and> y = u) then Some d else get_edge_data G x y)"
  apply (simp only: get_edge_data_set_adj)
  apply (cases "x = u"; cases "y = v"; cases "x = v"; cases "y = u"; simp)
  done

lemma get_edge_data_add_edge:
  assumes "has_node G u" "has_node G v"
  shows "get_edge_data (add_edge u v d G) x y
     = (if (x = u \<and> y = v) \<or> (x = v \<and> y = u) then Some d else get_edge_data G x y)"
  by (simp only: add_edge_present [OF assms] get_edge_data_both_directions)

lemma nodes_add_edge_present:
  "has_node G u \<Longrightarrow> has_node G v \<Longrightarrow> nodes (add_edge u v d G) = nodes G"
  by (simp add: add_edge_present set_adj_def)

lemma add_relationship_cases:
  "add_relationship rel (G, w) =
     (if has_node G (source rel) \<and> has_node G (target rel)
      then (add_edge (source rel) (target rel) (edge_of rel) G, w)
      else (G, w @ [Skipping_edge (source rel) (target rel)]))"
  by (simp add: add_relationship_def edge_of_def)

lemma nodes_add_relationship: "nodes (fst (add_relationship rel (G, w))) = nodes G"
  by (simp add: add_relationship_cases nodes_add_edge_present)

lemma well_formed_add_relationship:
  "well_formed G \<Longrightarrow> well_formed (fst (add_relationship rel (G, w)))"
  by (simp add: add_relationship_cases well_formed_add_edge)

lemma fold_add_relationship_invariants:
  "nodes (fst (fold add_relationship rels (G, w))) = nodes G
   \<and> (well_formed G \<longrightarrow> well_formed (fst (fold add_relationship rels (G, w))))"
proof (induction rels arbitrary: G w)
  case Nil
  show ?case by simp
next
  case (Cons rel rels)
  obtain G' w' where step: "add_relationship rel (G, w) = (G', w')"
    by (cases "add_relationship rel (G, w)")
  have "nodes G' = nodes G" using nodes_add_relationship [of rel G w] by (simp add: step)
  moreover have "well_formed G \<longrightarrow> well_formed G'"
    using well_formed_add_relationship [of G rel w] by (simp add: step)
  ultimately show ?case using Cons.IH [of G' w'] by (simp add: step)
qed

lemma has_node_fold_add_relationship:
  "has_node (fst (fold add_relationship rels (G, w))) n = has_node G n"
  by (simp add: has_node_def fold_add_relationship_invariants)

lemma well_formed_fold_add_artifact:
  "well_formed G \<Longrightarrow> well_formed (fold add_artifact artifacts G)"
  by (induction artifacts arbitrary: G) (simp_all add: add_artifact_def well_formed_add_node)

lemma has_node_fold_add_artifact:
  "has_node (fold add_artifact artifacts G) n = (n \<in> art_id ` set artifacts \<or> has_node G n)"
  by (induction artifacts arbitrary: G) (auto simp: add_artifact_def has_node_add_node)

lemma well_formed_build: "well_formed (fst (build_artifact_graph artifacts rels))"
  by (simp add: build_artifact_graph_def fold_add_relationship_invariants
      well_formed_fold_add_artifact well_formed_empty)

lemma has_node_build:
  "has_node (fst (build_artifact_graph artifacts rels)) n = (n \<in> art_id ` set artifacts)"
  by (simp add: build_artifact_graph_def has_node_fold_add_relationship
      has_node_fold_add_artifact) (simp add: has_node_def empty_graph_def)

lemma edges_endpoints_known:
  assumes "well_formed G" "(u, v, d) \<in> set (edges G)"
  shows "has_node G u \<and> has_node G v"
proof -
  from assms(2) obtain nbrs where "(u, nbrs) \<in> set (adj G)" "(v, d) \<in> set nbrs"
    using edges_from_member [of u v d "adj G" "[]"] by (auto simp: edges_def)
  with assms(1) show ?thesis
    unfolding well_formed_def adjacency_ok_def has_node_def by force
qed

lemma fold_add_relationship_filter:
  assumes "\<And>n. has_node G n = (n \<in> art_id ` set artifacts)"
  shows "fold add_relationship rels (G, w) =
           (fst (fold add_relationship (filter (known artifacts) rels) (G, w)),
            w @ map (\<lambda>r. Skipping_edge (source r) (target r))
                  (filter (\<lambda>r. \<not> known artifacts r) rels))
         \<and> snd (fold add_relationship (filter (known artifacts) rels) (G, w)) = w"
  using assms
proof (induction rels arbitrary: G w)
  case Nil
  show ?case by simp
next
  case (Cons rel rels)
  show ?case
  proof (cases "known artifacts rel")
    case True
    let ?G = "add_edge (source rel) (target rel) (edge_of rel) G"
    from True Cons.prems have step: "add_relationship rel (G, w) = (?G, w)"
      by (simp add: add_relationship_cases known_def)
    have "\<And>n. has_node ?G n = (n \<in> art_id ` set artifacts)"
      using True Cons.prems by (auto simp: has_node_add_edge known_def)
    from Cons.IH [OF this, of w] show ?thesis using True by (simp add: step)
  next
    case False
    from False Cons.prems have
      step: "add_relationship rel (G, w) = (G, w @ [Skipping_edge (source rel) (target rel)])"
      by (simp add: add_relationship_cases known_def)
    have filt: "snd (fold add_relationship (filter (known artifacts) rels) (G, w')) = w'" for w'
      using Cons.IH [OF Cons.prems, of w'] by simp
    have indep: "fst (fold add_relationship rs (G', w1)) = fst (fold add_relationship rs (G', w2))"
      for rs G' w1 w2
      by (induction rs arbitrary: G' w1 w2) (simp_all add: add_relationship_cases)
    from Cons.IH [OF Cons.prems, of "w @ [Skipping_edge (source rel) (target rel)]"]
    show ?thesis using False
      by (simp add: step filt indep [of _ G "w @ [Skipping_edge (source rel) (target rel)]" w]
          Cons.IH [OF Cons.prems, of w])
  qed
qed

lemma get_edge_data_fold_other:
  "\<forall>r' \<in> set later. {source r', target r'} \<noteq> {x, y} \<Longrightarrow>
   get_edge_data (fst (fold add_relationship later (G, w))) x y = get_edge_data G x y"
proof (induction later arbitrary: G w)
  case Nil
  show ?case by simp
next
  case (Cons rel later)
  from Cons.prems have ne: "{source rel, target rel} \<noteq> {x, y}"
    and rest: "\<forall>r' \<in> set later. {source r', target r'} \<noteq> {x, y}" by simp_all
  obtain G' w' where step: "add_relationship rel (G, w) = (G', w')"
    by (cases "add_relationship rel (G, w)")
  have "get_edge_data G' x y = get_edge_data G x y"
  proof (cases "has_node G (source rel) \<and> has_node G (target rel)")
    case True
    then have G': "G' = add_edge (source rel) (target rel) (edge_of rel) G"
      using step by (simp add: add_relationship_cases)
    from ne have neg: "\<not> ((x = source rel \<and> y = target rel) \<or> (x = target rel \<and> y = source rel))"
      by (auto simp: doubleton_eq_iff)
    from True have "get_edge_data (add_edge (source rel) (target rel) (edge_of rel) G) x y
        = (if (x = source rel \<and> y = target rel) \<or> (x = target rel \<and> y = source rel)
           then Some (edge_of rel) else get_edge_data G x y)"
      by (intro get_edge_data_add_edge) simp_all
    also have "\<dots> = get_edge_data G x y"
      using neg by (rule if_not_P)
    finally show ?thesis by (simp only: G')
  next
    case False
    then have "add_relationship rel (G, w) = (G, w @ [Skipping_edge (source rel) (target rel)])"
      by (simp only: add_relationship_cases if_False)
    with step show ?thesis by simp
  qed
  with Cons.IH [OF rest, of G' w'] show ?case by (simp add: step)
qed

lemma filter_unique:
  "distinct (map f xs) \<Longrightarrow> x \<in> set xs \<Longrightarrow> filter (\<lambda>y. f y = f x) xs = [x]"
proof (induction xs)
  case Nil
  then show ?case by simp
next
  case (Cons z xs)
  show ?case
  proof (cases "x = z")
    case True
    from Cons.prems(1) have "\<forall>y \<in> set xs. f y \<noteq> f z" by (auto simp: image_iff)
    then have "filter (\<lambda>y. f y = f z) xs = []" by (simp add: filter_empty_conv)
    then show ?thesis by (simp add: True)
  next
    case False
    with Cons.prems have x: "x \<in> set xs" and "f z \<noteq> f x" by (auto simp: image_iff)
    with Cons.IH Cons.prems(1) show ?thesis by simp
  qed
qed

lemma get_edge_data_adjacency:
  "get_edge_data G u v = Some d \<Longrightarrow>
     \<exists>nu. map_of (adj G) u = Some nu \<and> map_of nu v = Some d"
  by (auto simp: get_edge_data_def neighbours_def dict_get_def split: option.splits)

lemma edge_listed_once:
  assumes wf: "well_formed G"
    and uv: "get_edge_data G u v = Some d" and vu: "get_edge_data G v u = Some d"
  shows "filter (\<lambda>e. endpoints e = {u, v}) (edges G) = [(u, v, d)]
         \<or> filter (\<lambda>e. endpoints e = {u, v}) (edges G) = [(v, u, d)]"
proof -
  let ?N = "fst ` set (nodes G)"
  have ok: "adjacency_ok ?N (adj G)" using wf by (simp add: well_formed_def)
  from get_edge_data_adjacency [OF uv] obtain nu
    where nu: "map_of (adj G) u = Some nu" "map_of nu v = Some d" by blast
  from get_edge_data_adjacency [OF vu] obtain nv
    where nv: "map_of (adj G) v = Some nv" "map_of nv u = Some d" by blast
  from edges_from_contains [OF nu nv, of "[]"] obtain e
    where e: "e \<in> set (edges G)" "endpoints e = {u, v}"
    by (auto simp: edges_def)
  have "distinct (map endpoints (edges G))"
    unfolding edges_def using ok by (rule distinct_edges_from)
  from filter_unique [OF this e(1)] have one: "filter (\<lambda>y. endpoints y = {u, v}) (edges G) = [e]"
    by (simp add: e(2))
  obtain a b d' where abd: "e = (a, b, d')" by (cases e)
  from e(1) obtain nbrs where nbrs: "(a, nbrs) \<in> set (adj G)" "(b, d') \<in> set nbrs"
    using edges_from_member [of a b d' "adj G" "[]"] by (auto simp: edges_def abd)
  from ok nbrs(1) have "distinct (map fst (adj G))" "distinct (map fst nbrs)"
    unfolding adjacency_ok_def by blast+
  with nbrs have "map_of (adj G) a = Some nbrs" "map_of nbrs b = Some d'"
    by simp_all
  then have ab: "get_edge_data G a b = Some d'"
    by (simp add: get_edge_data_def neighbours_def dict_get_def)
  from e(2) have "(a = u \<and> b = v) \<or> (a = v \<and> b = u)"
    by (auto simp: abd endpoints_simp doubleton_eq_iff)
  then show ?thesis
  proof
    assume "a = u \<and> b = v"
    with ab uv have "e = (u, v, d)" by (simp add: abd)
    with one show ?thesis by simp
  next
    assume "a = v \<and> b = u"
    with ab vu have "e = (v, u, d)" by (simp add: abd)
    with one show ?thesis by simp
  qed
qed

lemma build_three_nodes:
  assumes "distinct [art_id a1, art_id a2, art_id a3]"
  shows "map fst (nodes (fold add_artifact [a1, a2, a3] empty_graph)) = [art_id a1, art_id a2, art_id a3]
         \<and> adj (fold add_artifact [a1, a2, a3] empty_graph)
             = [(art_id a1, []), (art_id a2, []), (art_id a3, [])]"
  using assms
  by (simp add: add_artifact_def add_node_def has_node_def empty_graph_def)

text \<open>
  Claim C7. The graph returned by \<^verbatim>\<open>build_artifact_graph\<close> has the artifact ids as its
  nodes; every edge it lists joins two of its nodes; it is the graph built from the records
  whose two ends are both artifact ids, and one warning is emitted, in order, for each
  other record. In particular three artifacts of different ids and one record with an end
  that is none of them give 3 nodes, 0 edges and one warning.
\<close>

theorem build_artifact_graph_consistent:
  assumes "(G, warnings) = build_artifact_graph artifacts rels"
  shows "(\<forall>n. has_node G n = (n \<in> art_id ` set artifacts))
    \<and> (\<forall>u v d. (u, v, d) \<in> set (edges G) \<longrightarrow> has_node G u \<and> has_node G v)
    \<and> G = fst (build_artifact_graph artifacts (filter (known artifacts) rels))
    \<and> warnings = map (\<lambda>r. Skipping_edge (source r) (target r))
                    (filter (\<lambda>r. \<not> known artifacts r) rels)
    \<and> (artifacts = [a1, a2, a3] \<and> distinct [art_id a1, art_id a2, art_id a3]
         \<and> rels = [r] \<and> \<not> known artifacts r \<longrightarrow>
        number_of_nodes G = 3 \<and> number_of_edges G = 0
        \<and> warnings = [Skipping_edge (source r) (target r)])"
proof -
  let ?G0 = "fold add_artifact artifacts empty_graph"
  have G: "G = fst (build_artifact_graph artifacts rels)"
    and W: "warnings = snd (build_artifact_graph artifacts rels)"
    using assms by (metis fst_conv, metis snd_conv)
  have nodes0: "has_node ?G0 n = (n \<in> art_id ` set artifacts)" for n
    by (simp add: has_node_fold_add_artifact) (simp add: has_node_def empty_graph_def)
  note parts = fold_add_relationship_filter [of ?G0 artifacts rels "[]", OF nodes0]
  have 1: "\<forall>n. has_node G n = (n \<in> art_id ` set artifacts)"
    by (simp add: G has_node_build)
  have wf: "well_formed G" unfolding G by (rule well_formed_build)
  have 2: "\<forall>u v d. (u, v, d) \<in> set (edges G) \<longrightarrow> has_node G u \<and> has_node G v"
    using edges_endpoints_known [OF wf] by blast
  have 3: "G = fst (build_artifact_graph artifacts (filter (known artifacts) rels))"
    using parts by (simp add: G build_artifact_graph_def)
  have 4: "warnings = map (\<lambda>r. Skipping_edge (source r) (target r))
                    (filter (\<lambda>r. \<not> known artifacts r) rels)"
    using parts by (simp add: W build_artifact_graph_def)
  have 5: "number_of_nodes G = 3 \<and> number_of_edges G = 0
        \<and> warnings = [Skipping_edge (source r) (target r)]"
    if ex: "artifacts = [a1, a2, a3] \<and> distinct [art_id a1, art_id a2, art_id a3]
         \<and> rels = [r] \<and> \<not> known artifacts r"
  proof -
    from ex have a: "artifacts = [a1, a2, a3]" and rr: "rels = [r]"
      and nk: "\<not> known artifacts r" by blast+
    from rr nk have "filter (known artifacts) rels = []" by simp
    with 3 have "G = fst (build_artifact_graph artifacts [])" by simp
    then have G0: "G = fold add_artifact [a1, a2, a3] empty_graph"
      by (simp add: build_artifact_graph_def a)
    from rr nk have only: "filter (\<lambda>r. \<not> known artifacts r) rels = [r]" by simp
    from ex have d: "distinct [art_id a1, art_id a2, art_id a3]" by blast
    have "length (map fst (nodes G)) = 3"
      unfolding G0 using build_three_nodes [OF d] by simp
    then have n: "number_of_nodes G = 3" by (simp add: number_of_nodes_def)
    have e: "number_of_edges G = 0"
      using build_three_nodes [OF d] by (simp add: number_of_edges_def edges_def G0)
    from 4 have "warnings = [Skipping_edge (source r) (target r)]" by (simp add: only)
    with n e show ?thesis by simp
  qed
  from 1 2 3 4 5 show ?thesis by blast
qed

text \<open>
  The theorem at the artifacts 1, 2 and 3 and one relationship from 1 to the absent 4.
\<close>

theorem build_artifact_graph_consistent_witness:
  "build_artifact_graph [memo 1, memo 2, memo 3] [link 1 4 ''Related'' 80]
     = (fold add_artifact [memo 1, memo 2, memo 3] empty_graph, [Skipping_edge 1 4])
   \<and> \<not> known [memo 1, memo 2, memo 3] (link 1 4 ''Related'' 80)
   \<and> number_of_nodes (fst (build_artifact_graph [memo 1, memo 2, memo 3] [link 1 4 ''Related'' 80])) = 3
   \<and> number_of_edges (fst (build_artifact_graph [memo 1, memo 2, memo 3] [link 1 4 ''Related'' 80])) = 0"
proof -
  obtain G w where b: "(G, w) = build_artifact_graph [memo 1, memo 2, memo 3] [link 1 4 ''Related'' 80]"
    by (metis surj_pair)
  have k: "\<not> known [memo 1, memo 2, memo 3] (link 1 4 ''Related'' 80)"
    by (simp add: known_def memo_def link_def)
  have d: "distinct [art_id (memo 1), art_id (memo 2), art_id (memo 3)]"
    by (simp add: memo_def)
  from build_artifact_graph_consistent [OF b, of "memo 1" "memo 2" "memo 3" "link 1 4 ''Related'' 80"] k d
  have "number_of_nodes G = 3 \<and> number_of_edges G = 0
        \<and> w = [Skipping_edge (source (link 1 4 ''Related'' 80)) (target (link 1 4 ''Related'' 80))]"
    and "G = fst (build_artifact_graph [memo 1, memo 2, memo 3]
                    (filter (known [memo 1, memo 2, memo 3]) [link 1 4 ''Related'' 80]))"
    by blast+
  with k b [symmetric] show ?thesis
    by (simp add: link_def build_artifact_graph_def)
qed

text \<open>
  Claim C10. When a record over two artifact ids is followed by no other record over the
  same unordered pair, whatever records come before it, the graph holds its type, score
  and color as the edge data in both directions, and the edge view lists exactly one edge
  between the two ids, carrying that data: later records overwrite earlier ones.
\<close>

theorem build_artifact_graph_last_record_wins:
  assumes G: "G = fst (build_artifact_graph artifacts (earlier @ [r] @ later))"
    and r: "known artifacts r"
    and later: "\<forall>r' \<in> set later. {source r', target r'} \<noteq> {source r, target r}"
  shows "get_edge_data G (source r) (target r) = Some (edge_of r)
         \<and> get_edge_data G (target r) (source r) = Some (edge_of r)
         \<and> (filter (\<lambda>e. endpoints e = {source r, target r}) (edges G)
               = [(source r, target r, edge_of r)]
            \<or> filter (\<lambda>e. endpoints e = {source r, target r}) (edges G)
               = [(target r, source r, edge_of r)])"
proof -
  let ?G0 = "fold add_artifact artifacts empty_graph"
  obtain G1 w1 where one: "fold add_relationship earlier (?G0, []) = (G1, w1)"
    by (cases "fold add_relationship earlier (?G0, [])")
  have nodes1: "has_node G1 n = (n \<in> art_id ` set artifacts)" for n
    using has_node_fold_add_relationship [of earlier ?G0 "[]" n]
    by (simp add: one has_node_fold_add_artifact) (simp add: has_node_def empty_graph_def)
  let ?G2 = "add_edge (source r) (target r) (edge_of r) G1"
  have s: "has_node G1 (source r)" and t: "has_node G1 (target r)"
    using r by (simp_all add: nodes1 known_def)
  then have two: "add_relationship r (G1, w1) = (?G2, w1)"
    by (simp add: add_relationship_cases)
  have G': "G = fst (fold add_relationship later (?G2, w1))"
    by (simp add: G build_artifact_graph_def one two)
  from later have later': "\<forall>r' \<in> set later. {source r', target r'} \<noteq> {target r, source r}"
    by (simp add: insert_commute)
  have st: "get_edge_data G (source r) (target r) = Some (edge_of r)"
    unfolding G' by (simp add: get_edge_data_fold_other [OF later] get_edge_data_add_edge [OF s t])
  have ts: "get_edge_data G (target r) (source r) = Some (edge_of r)"
    unfolding G' by (simp add: get_edge_data_fold_other [OF later'] get_edge_data_add_edge [OF s t])
  have "well_formed G" unfolding G by (rule well_formed_build)
  from edge_listed_once [OF this st ts] st ts show ?thesis by simp
qed

text \<open>
  The theorem at two records over the artifacts 1 and 2, the second in the opposite
  direction: the only edge carries the data of the second record.
\<close>

theorem build_artifact_graph_last_record_wins_witness:
  "known [memo 1, memo 2] (link 2 1 ''FuzzyLink'' 50)
   \<and> get_edge_data (fst (build_artifact_graph [memo 1, memo 2]
        [link 1 2 ''Related'' 90, link 2 1 ''FuzzyLink'' 50])) 1 2
      = Some \<lparr>edge_type = ''FuzzyLink'', edge_score = 50, edge_color = ''blue''\<rparr>
   \<and> get_edge_data (fst (build_artifact_graph [memo 1, memo 2]
        [link 1 2 ''Related'' 90, link 2 1 ''FuzzyLink'' 50])) 2 1
      = Some \<lparr>edge_type = ''FuzzyLink'', edge_score = 50, edge_color = ''blue''\<rparr>
   \<and> length (filter (\<lambda>e. endpoints e = {1, 2}) (edges (fst (build_artifact_graph [memo 1, memo 2]
        [link 1 2 ''Related'' 90, link 2 1 ''FuzzyLink'' 50])))) = 1"
proof -
  let ?G = "fst (build_artifact_graph [memo 1, memo 2]
              [link 1 2 ''Related'' 90, link 2 1 ''FuzzyLink'' 50])"
  have k: "known [memo 1, memo 2] (link 2 1 ''FuzzyLink'' 50)"
    by (simp add: known_def memo_def link_def)
  have e: "edge_of (link 2 1 ''FuzzyLink'' 50)
             = \<lparr>edge_type = ''FuzzyLink'', edge_score = 50, edge_color = ''blue''\<rparr>"
    by (simp add: edge_of_def link_def dict_get_def EDGE_COLORS_def)
  have st: "source (link 2 1 ''FuzzyLink'' 50) = 2" "target (link 2 1 ''FuzzyLink'' 50) = 1"
    by (simp_all add: link_def)
  from build_artifact_graph_last_record_wins
    [of "fst (build_artifact_graph [memo 1, memo 2]
          [link 1 2 ''Related'' 90, link 2 1 ''FuzzyLink'' 50])"
        "[memo 1, memo 2]" "[link 1 2 ''Related'' 90]" "link 2 1 ''FuzzyLink'' 50" "[]"] k
  have "get_edge_data ?G 2 1 = Some (edge_of (link 2 1 ''FuzzyLink'' 50))
        \<and> get_edge_data ?G 1 2 = Some (edge_of (link 2 1 ''FuzzyLink'' 50))
        \<and> (filter (\<lambda>e. endpoints e = {2, 1}) (edges ?G) = [(2, 1, edge_of (link 2 1 ''FuzzyLink'' 50))]
           \<or> filter (\<lambda>e. endpoints e = {2, 1}) (edges ?G) = [(1, 2, edge_of (link 2 1 ''FuzzyLink'' 50))])"
    by (simp add: st)
  then have "get_edge_data ?G 2 1 = Some (edge_of (link 2 1 ''FuzzyLink'' 50))"
    and "get_edge_data ?G 1 2 = Some (edge_of (link 2 1 ''FuzzyLink'' 50))"
    and "length (filter (\<lambda>e. endpoints e = {2, 1}) (edges ?G)) = 1"
    by auto
  moreover have "{2, 1} = {1, 2::int}" by (rule insert_commute)
  ultimately show ?thesis using k by (simp add: e)
qed

end
